theory Spec2Isabelle
  imports Main
begin

section \<open>Exceptions\<close>

text \<open>
  Every exception the modelled code raises or lets through is a value of \<open>error\<close>.
  A function that can raise returns \<open>error + 'a\<close>, with \<open>Inl\<close> for the exception; a
  method that also mutates its object returns the pair of that result and the object,
  so the mutations made before a raise stay visible.
\<close>

datatype error =
    RuntimeError string
  | ServiceRuntimeError string
  | HikvisionAPIError string
  | KeyError string
  | IndexError
  | TypeError
  | ValueError
  | FileNotFoundError string
  | TransportError string
  | RetryError

section \<open>DVR file wrapper (services/stream/dvr/file_wrapper.py)\<close>

subsection \<open>Probe metadata as Python values\<close>

text \<open>
  The probe task returns the parsed JSON document of ffprobe, or \<open>None\<close>. \<open>JDict\<close>
  keeps the pairs in document order, each key once; \<open>JNull\<close> is a \<open>None\<close> inside
  the document.
  Floating-point numbers are left out: ffprobe prints durations as strings.
\<close>

datatype json =
    JNull
  | JBool bool
  | JInt int
  | JStr string
  | JList "json list"
  | JDict "(string \<times> json) list"

text \<open>Python truth value: \<open>not x\<close> is \<open>\<not> truthy x\<close>.\<close>

fun truthy :: "json \<Rightarrow> bool" where
  "truthy JNull = False"
| "truthy (JBool b) = b"
| "truthy (JInt i) = (i \<noteq> 0)"
| "truthy (JStr s) = (s \<noteq> [])"
| "truthy (JList xs) = (xs \<noteq> [])"
| "truthy (JDict kvs) = (kvs \<noteq> [])"

text \<open>\<open>x[key]\<close> with a string key: a missing key raises KeyError, and a value that is
  not a dict raises TypeError.\<close>

fun getitem :: "json \<Rightarrow> string \<Rightarrow> error + json" where
  "getitem (JDict kvs) k = (case map_of kvs k of None \<Rightarrow> Inl (KeyError k) | Some v \<Rightarrow> Inr v)"
| "getitem _ k = Inl TypeError"

text \<open>\<open>for stream in x\<close>: a list yields its elements, a dict its keys, a string its
  characters; anything else raises TypeError.\<close>

fun iter :: "json \<Rightarrow> error + json list" where
  "iter (JList xs) = Inr xs"
| "iter (JDict kvs) = Inr (map (\<lambda>kv. JStr (fst kv)) kvs)"
| "iter (JStr s) = Inr (map (\<lambda>c. JStr [c]) s)"
| "iter _ = Inl TypeError"

text \<open>\<open>xs[0]\<close> on a list: IndexError when the list is empty.\<close>

definition first_item :: "'a list \<Rightarrow> error + 'a" where
  "first_item xs = (case xs of [] \<Rightarrow> Inl IndexError | x # _ \<Rightarrow> Inr x)"

subsection \<open>The object\<close>

text \<open>
  The fields of \<open>DvrFile\<close>, named as its read-only properties name them
  (\<open>_lock_count\<close> is \<open>lock_count\<close>, and so on). \<open>local_storage_path\<close> is what the
  constructor reads from \<open>cam.conf.livestream.dvr.local_storage_path\<close>; the paths are
  kept as strings, joined with a slash.
\<close>

record DvrFile =
  filename :: string
  lock_count :: int
  storage_path :: string
  full_path :: string
  thumbnail_path :: string
  duration :: "int option"
  width :: "json option"
  height :: "json option"
  probe_ctx :: "json option"
  is_broken :: bool

definition DvrFile_init :: "string \<Rightarrow> int \<Rightarrow> string \<Rightarrow> error + DvrFile" where
  "DvrFile_init fname lock_cnt local_storage_path =
     (if lock_cnt \<le> 0 then Inl (RuntimeError ''Lock count cannot be lower or equal 0'')
      else Inr \<lparr> filename = fname,
                 lock_count = lock_cnt,
                 storage_path = local_storage_path,
                 full_path = local_storage_path @ ''/'' @ fname,
                 thumbnail_path = local_storage_path @ ''/'' @ fname @ ''-thumb.jpg'',
                 duration = None,
                 width = None,
                 height = None,
                 probe_ctx = None,
                 is_broken = False \<rparr>)"

definition mark_as_broken :: "DvrFile \<Rightarrow> DvrFile" where
  "mark_as_broken f = f\<lparr>is_broken := True\<rparr>"

definition decrement_lock_count :: "DvrFile \<Rightarrow> DvrFile" where
  "decrement_lock_count f =
     (if lock_count f > 0 then f\<lparr>lock_count := lock_count f - 1\<rparr> else f)"

definition is_locked :: "DvrFile \<Rightarrow> bool" where
  "is_locked f = (lock_count f \<noteq> 0)"

text \<open>
  \<open>_get_probe_ctx\<close>. \<open>probed\<close> is what the probe task returned for this file
  (\<open>None\<close> or a document) and \<open>int_float\<close> is Python's \<open>int(float(x))\<close>, which
  either gives an integer or raises ValueError, TypeError or OverflowError (never a
  KeyError); \<open>None\<close> stands for those.
\<close>

text \<open>The comprehension \<open>[stream for stream in ... if stream['codec_type'] == 'video']\<close>:
  it raises at the first element that has no \<open>codec_type\<close>.\<close>

fun video_streams_of :: "json list \<Rightarrow> error + json list" where
  "video_streams_of [] = Inr []"
| "video_streams_of (stream # rest) =
     (case getitem stream ''codec_type'' of
        Inl e \<Rightarrow> Inl e
      | Inr c \<Rightarrow>
          (case video_streams_of rest of
             Inl e \<Rightarrow> Inl e
           | Inr vs \<Rightarrow> Inr (if c = JStr ''video'' then stream # vs else vs)))"

text \<open>The handler \<open>except KeyError\<close>: a KeyError marks the file broken and is
  swallowed, any other exception leaves the method.\<close>

definition except_KeyError :: "error \<Rightarrow> DvrFile \<Rightarrow> (error + unit) \<times> DvrFile" where
  "except_KeyError e f =
     (case e of KeyError k \<Rightarrow> (Inr (), mark_as_broken f) | _ \<Rightarrow> (Inl e, f))"

definition get_probe_ctx ::
  "(json \<Rightarrow> int option) \<Rightarrow> json option \<Rightarrow> DvrFile \<Rightarrow> (error + unit) \<times> DvrFile" where
  "get_probe_ctx int_float probed f0 =
     (let f = f0\<lparr>probe_ctx := probed\<rparr> in
      case probed of
        None \<Rightarrow> (Inr (), mark_as_broken f)
      | Some ctx \<Rightarrow>
          if \<not> truthy ctx then (Inr (), mark_as_broken f)
          else
            (case getitem ctx ''streams'' of
               Inl e \<Rightarrow> (Inl e, f)
             | Inr streams \<Rightarrow>
            (case iter streams of
               Inl e \<Rightarrow> (Inl e, f)
             | Inr ss \<Rightarrow>
            (case video_streams_of ss of
               Inl e \<Rightarrow> (Inl e, f)
             | Inr video_streams \<Rightarrow>
            \<comment> \<open>the try block\<close>
            (case getitem ctx ''format'' of
               Inl e \<Rightarrow> except_KeyError e f
             | Inr fmt \<Rightarrow>
            (case getitem fmt ''duration'' of
               Inl e \<Rightarrow> except_KeyError e f
             | Inr d \<Rightarrow>
            (case int_float d of
               None \<Rightarrow> (Inl ValueError, f)
             | Some secs \<Rightarrow>
            (let f1 = f\<lparr>duration := Some secs\<rparr> in
             case first_item video_streams of
               Inl e \<Rightarrow> except_KeyError e f1
             | Inr v \<Rightarrow>
            (case getitem v ''height'' of
               Inl e \<Rightarrow> except_KeyError e f1
             | Inr h \<Rightarrow>
            (let f2 = f1\<lparr>height := Some h\<rparr> in
             case first_item video_streams of
               Inl e \<Rightarrow> except_KeyError e f2
             | Inr v' \<Rightarrow>
            (case getitem v' ''width'' of
               Inl e \<Rightarrow> except_KeyError e f2
             | Inr wd \<Rightarrow> (Inr (), f2\<lparr>width := Some wd\<rparr>))))))))))))"

subsection \<open>Properties that read the disk\<close>

text \<open>
  \<open>disk p\<close> is the size of the regular file at path \<open>p\<close>, or \<open>None\<close> when there is
  no regular file there. \<open>exists\<close> is \<open>Path.is_file\<close>; \<open>is_empty\<close> calls \<open>Path.stat\<close>,
  which raises when the path is missing.
\<close>

definition exists :: "(string \<Rightarrow> nat option) \<Rightarrow> DvrFile \<Rightarrow> bool" where
  "exists disk f = (disk (full_path f) \<noteq> None)"

definition is_empty_file :: "(string \<Rightarrow> nat option) \<Rightarrow> DvrFile \<Rightarrow> error + bool" where
  "is_empty_file disk f =
     (case disk (full_path f) of
        None \<Rightarrow> Inl (FileNotFoundError (full_path f))
      | Some st_size \<Rightarrow> Inr (st_size = 0))"

definition thumbnail :: "(string \<Rightarrow> nat option) \<Rightarrow> DvrFile \<Rightarrow> string option" where
  "thumbnail disk f = (if disk (thumbnail_path f) \<noteq> None then Some (thumbnail_path f) else None)"

section \<open>Telegram upload task (services/stream/dvr/upload/tasks/telegram.py)\<close>

definition UPLOAD_RETRY_WAIT :: nat where
  "UPLOAD_RETRY_WAIT = 5"

definition UPLOAD_RETRY_STOP_AFTER :: nat where
  "UPLOAD_RETRY_STOP_AFTER = 5"

text \<open>
  What the task reads and calls but does not own: the disk, the bot (the chat
  transport) and the configuration. \<open>transport i\<close> is the outcome of the call number
  \<open>i\<close> (counted from 0) made on the bot: \<open>None\<close> when the call returns, the exception
  when it raises.
\<close>

record upload_env =
  disk :: "string \<Rightarrow> nat option"
  transport :: "nat \<Rightarrow> error option"
  group_id :: int
  cam_description :: string
  cam_hashtag :: string

text \<open>The calls made on the bot, with their arguments in the order of the source
  (\<open>send_video\<close>: chat, caption, video, file_name, duration, height, width, thumb,
  supports_streaming).\<close>

datatype bot_call =
    Send_chat_action int
  | Send_video int string string string int json json "string option" bool

datatype log_line = Log_debug string | Log_error string | Log_exception string

text \<open>
  The state the task works on. DVR files are objects shared with the rest of the
  program, so the queue holds references and \<open>files\<close> maps a reference to the object.
  \<open>bot_calls\<close> lists the calls made on the bot, \<open>log_lines\<close> what was logged,
  \<open>waited\<close> the seconds slept between attempts and \<open>attempts\<close> how often the body of
  \<open>_upload_video\<close> ran.
\<close>

record worker =
  files :: "nat \<Rightarrow> DvrFile"
  bot_calls :: "bot_call list"
  log_lines :: "log_line list"
  waited :: nat
  attempts :: nat

definition add_log :: "log_line \<Rightarrow> worker \<Rightarrow> worker" where
  "add_log l w = w\<lparr>log_lines := log_lines w @ [l]\<rparr>"

text \<open>One awaited call on the bot: it is recorded, then returns or raises.\<close>

definition call_bot :: "upload_env \<Rightarrow> bot_call \<Rightarrow> worker \<Rightarrow> (error + unit) \<times> worker" where
  "call_bot env c w =
     (let w' = w\<lparr>bot_calls := bot_calls w @ [c]\<rparr> in
      case transport env (length (bot_calls w)) of
        None \<Rightarrow> (Inr (), w')
      | Some e \<Rightarrow> (Inl e, w'))"

text \<open>Python's \<open>x or 0\<close>.\<close>

definition int_or_0 :: "int option \<Rightarrow> int" where
  "int_or_0 x = (case x of None \<Rightarrow> 0 | Some i \<Rightarrow> i)"

definition json_or_0 :: "json option \<Rightarrow> json" where
  "json_or_0 x = (case x of None \<Rightarrow> JInt 0 | Some j \<Rightarrow> if truthy j then j else JInt 0)"

definition validate_file :: "upload_env \<Rightarrow> DvrFile \<Rightarrow> worker \<Rightarrow> (error + bool) \<times> worker" where
  "validate_file env dvr_file w =
     (if \<not> exists (disk env) dvr_file then
        (Inr False, add_log (Log_error (''File '' @ full_path dvr_file @ '' does not exist, cannot upload'')) w)
      else if is_broken dvr_file then
        (Inr False, add_log (Log_error (''File '' @ full_path dvr_file @ '' is broken, cannot upload'')) w)
      else
        (case is_empty_file (disk env) dvr_file of
           Inl e \<Rightarrow> (Inl e, w)
         | Inr True \<Rightarrow>
             (Inr False, add_log (Log_error (''File '' @ full_path dvr_file @ '' empty, cannot upload'')) w)
         | Inr False \<Rightarrow> (Inr True, w)))"

text \<open>\<open>__upload\<close> of the file that reference \<open>r\<close> names.\<close>

definition upload :: "upload_env \<Rightarrow> nat \<Rightarrow> worker \<Rightarrow> (error + unit) \<times> worker" where
  "upload env r w =
     (let dvr_file = files w r in
      case validate_file env dvr_file w of
        (Inl e, w1) \<Rightarrow> (Inl e, w1)
      | (Inr False, w1) \<Rightarrow> (Inr (), w1)
      | (Inr True, w1) \<Rightarrow>
          (let w2 = add_log (Log_debug (''Uploading DVR video '' @ full_path dvr_file)) w1;
               caption = ''Video from '' @ cam_description env @ '' '' @ cam_hashtag env
           in case call_bot env (Send_chat_action (group_id env)) w2 of
                (Inl e, w3) \<Rightarrow> (Inl e, w3)
              | (Inr _, w3) \<Rightarrow>
                  (case call_bot env
                          (Send_video (group_id env) caption (full_path dvr_file) (filename dvr_file)
                             (int_or_0 (duration dvr_file)) (json_or_0 (height dvr_file))
                             (json_or_0 (width dvr_file)) (thumbnail (disk env) dvr_file) True) w3 of
                     (Inl e, w4) \<Rightarrow> (Inl e, w4)
                   | (Inr _, w4) \<Rightarrow>
                       (Inr (), add_log (Log_debug (''Finished uploading DVR video '' @ full_path dvr_file)) w4))))"

text \<open>The body of \<open>_upload_video\<close>: one attempt; an exception is logged and raised
  again.\<close>

definition upload_video_attempt :: "upload_env \<Rightarrow> nat \<Rightarrow> worker \<Rightarrow> (error + unit) \<times> worker" where
  "upload_video_attempt env r w =
     (case upload env r (w\<lparr>attempts := attempts w + 1\<rparr>) of
        (Inl e, w1) \<Rightarrow>
          (Inl e, add_log (Log_exception (''Failed to upload video '' @ full_path (files w1 r) @ ''. Retrying'')) w1)
      | (Inr u, w1) \<Rightarrow> (Inr u, w1))"

text \<open>
  The decorator \<open>@retry(wait=wait_fixed(..), stop=stop_after_attempt(..))\<close> of the
  tenacity library, with \<open>left\<close> attempts still allowed: an attempt that returns ends
  the call; one that raises is followed by a wait and the next attempt, or, when it
  was the last one allowed, by RetryError (the decorator is not given
  \<open>reraise=True\<close>).
\<close>

fun retry :: "upload_env \<Rightarrow> nat \<Rightarrow> nat \<Rightarrow> worker \<Rightarrow> (error + unit) \<times> worker" where
  "retry env 0 r w = (Inl RetryError, w)"
| "retry env (Suc left) r w =
     (case upload_video_attempt env r w of
        (Inr u, w1) \<Rightarrow> (Inr u, w1)
      | (Inl e, w1) \<Rightarrow>
          if left = 0 then (Inl RetryError, w1)
          else retry env left r (w1\<lparr>waited := waited w1 + UPLOAD_RETRY_WAIT\<rparr>))"

definition upload_video :: "upload_env \<Rightarrow> nat \<Rightarrow> worker \<Rightarrow> (error + unit) \<times> worker" where
  "upload_video env r w = retry env UPLOAD_RETRY_STOP_AFTER r w"

text \<open>
  \<open>_process_queue\<close>, run on the references that arrive on the queue, in order. The
  loop has no exit of its own: it ends \<open>Waiting\<close> in \<open>queue.get()\<close> once the queue is
  drained, or \<open>Raised\<close> with the exception that left it. The references that were never
  taken from the queue are returned with the state.
\<close>

datatype outcome = Waiting | Raised error

definition file_decrement_lock_count :: "nat \<Rightarrow> worker \<Rightarrow> worker" where
  "file_decrement_lock_count r w = w\<lparr>files := (files w)(r := decrement_lock_count (files w r))\<rparr>"

fun process_queue :: "upload_env \<Rightarrow> nat list \<Rightarrow> worker \<Rightarrow> outcome \<times> nat list \<times> worker" where
  "process_queue env [] w = (Waiting, [], w)"
| "process_queue env (dvr_file # queue) w =
     (case upload_video env dvr_file w of
        (Inl e, w1) \<Rightarrow> (Raised e, queue, w1)
      | (Inr _, w1) \<Rightarrow> process_queue env queue (file_decrement_lock_count dvr_file w1))"

section \<open>Alarm service (services/alarm/camera/alarm.py)\<close>

text \<open>
  What the service reads and calls but does not own. The detection types
  (\<open>DetectionType\<close>, in a module that is not among the sources) are the type \<open>'t\<close>;
  \<open>ALARM_TRIGGERS\<close> is \<open>DetectionType.choices()\<close>; \<open>conf_enabled t\<close> is
  \<open>conf.get_detection_schema_by_type(type_=t).enabled\<close>; \<open>DETECTION_SWITCH_MAP t\<close>
  is the \<open>name\<close> entry that the table of that name holds for every detection type,
  as the text it has in a message. The service's log lines are left out.
  \<open>api_switch i t state\<close> is the outcome of the call number \<open>i\<close> (counted from 0) of
  \<open>api.switch(trigger=t, state=state)\<close> on the camera: the optional text it returns,
  or the exception it raises.
\<close>

record 't alarm_env =
  cam_id :: string
  is_behind_nvr :: bool
  ALARM_TRIGGERS :: "'t list"
  conf_enabled :: "'t \<Rightarrow> bool"
  DETECTION_SWITCH_MAP :: "'t \<Rightarrow> string"
  api_switch :: "nat \<Rightarrow> 't \<Rightarrow> bool \<Rightarrow> error + string option"

text \<open>
  What the service does that the rest of the program can see, in the order in which
  it is done: a call of the camera's switch (recorded when it has returned or raised),
  setting and clearing the \<open>_started\<close> flag, and handing a monitoring task to the event
  loop under its task name.
\<close>

datatype 't action =
    Api_switch 't bool
  | Started_set
  | Started_clear
  | Create_task string

fun is_Api_switch :: "'t action \<Rightarrow> bool" where
  "is_Api_switch (Api_switch t b) = True"
| "is_Api_switch _ = False"

record 't AlarmService =
  started :: bool
  alert_count :: int
  history :: "'t action list"

definition AlarmService_init :: "'t AlarmService" where
  "AlarmService_init = \<lparr> started = False, alert_count = 0, history = [] \<rparr>"

definition api_calls :: "'t AlarmService \<Rightarrow> nat" where
  "api_calls s = length (filter is_Api_switch (history s))"

definition increase_alert_count :: "'t AlarmService \<Rightarrow> 't AlarmService" where
  "increase_alert_count s = s\<lparr>alert_count := alert_count s + 1\<rparr>"

definition enabled_in_conf :: "'t alarm_env \<Rightarrow> bool" where
  "enabled_in_conf env = list_ex (conf_enabled env) (ALARM_TRIGGERS env)"

text \<open>The handler \<open>except HikvisionAPIError as err\<close> of \<open>trigger_switch\<close>: the device's
  error becomes a ServiceRuntimeError with the switch's name; any other exception
  passes.\<close>

definition except_HikvisionAPIError :: "'t alarm_env \<Rightarrow> 't \<Rightarrow> error \<Rightarrow> error" where
  "except_HikvisionAPIError env trigger e =
     (case e of
        HikvisionAPIError err \<Rightarrow>
          ServiceRuntimeError (DETECTION_SWITCH_MAP env trigger @ '' Switch encountered an error: '' @ err)
      | _ \<Rightarrow> e)"

definition trigger_switch ::
  "'t alarm_env \<Rightarrow> 't \<Rightarrow> bool \<Rightarrow> 't AlarmService \<Rightarrow> (error + string option) \<times> 't AlarmService" where
  "trigger_switch env trigger state s =
     (let s' = s\<lparr>history := history s @ [Api_switch trigger state]\<rparr> in
      case api_switch env (api_calls s) trigger state of
        Inr txt \<Rightarrow> (Inr txt, s')
      | Inl e \<Rightarrow> (Inl (except_HikvisionAPIError env trigger e), s'))"

text \<open>\<open>_enable_triggers_on_camera\<close>, as the loop over the triggers still to visit.\<close>

fun enable_triggers_on_camera ::
  "'t alarm_env \<Rightarrow> 't list \<Rightarrow> 't AlarmService \<Rightarrow> (error + unit) \<times> 't AlarmService" where
  "enable_triggers_on_camera env [] s = (Inr (), s)"
| "enable_triggers_on_camera env (trigger # triggers) s =
     (if conf_enabled env trigger then
        (case trigger_switch env trigger True s of
           (Inl e, s1) \<Rightarrow> (Inl e, s1)
         | (Inr _, s1) \<Rightarrow> enable_triggers_on_camera env triggers s1)
      else enable_triggers_on_camera env triggers s)"

definition start_service_task :: "'t alarm_env \<Rightarrow> 't AlarmService \<Rightarrow> 't AlarmService" where
  "start_service_task env s =
     s\<lparr>history := history s @ [Create_task (''ServiceAlarmMonitoringTask_'' @ cam_id env)]\<rparr>"

definition start :: "'t alarm_env \<Rightarrow> 't AlarmService \<Rightarrow> (error + unit) \<times> 't AlarmService" where
  "start env s =
     (if is_behind_nvr env then (Inr (), s)
      else if started s then (Inl (ServiceRuntimeError ''Alarm (alert) mode already started''), s)
      else
        (case enable_triggers_on_camera env (ALARM_TRIGGERS env) s of
           (Inl e, s1) \<Rightarrow> (Inl e, s1)
         | (Inr _, s1) \<Rightarrow>
             (Inr (), start_service_task env
                        (s1\<lparr>started := True, history := history s1 @ [Started_set]\<rparr>))))"

definition stop :: "'t AlarmService \<Rightarrow> (error + unit) \<times> 't AlarmService" where
  "stop s =
     (if \<not> started s then (Inl (ServiceRuntimeError ''Alarm alert mode already stopped''), s)
      else (Inr (), s\<lparr>started := False, history := history s @ [Started_clear]\<rparr>))"

text \<open>
  Two notions for stating what \<open>start\<close> meets on the camera. \<open>enabled_triggers\<close>
  are the triggers that \<open>_enable_triggers_on_camera\<close> switches, in its order. The
  switch call number \<open>j\<close> (counted from 0) of a \<open>start\<close> from state \<open>s\<close> is the call
  number \<open>api_calls s + j\<close> on the camera, for the trigger \<open>enabled_triggers env ! j\<close>;
  \<open>switch_returns env s j\<close> says that this call returns instead of raising.
\<close>

definition enabled_triggers :: "'t alarm_env \<Rightarrow> 't list" where
  "enabled_triggers env = filter (conf_enabled env) (ALARM_TRIGGERS env)"

definition switch_returns :: "'t alarm_env \<Rightarrow> 't AlarmService \<Rightarrow> nat \<Rightarrow> bool" where
  "switch_returns env s j =
     (\<not> isl (api_switch env (api_calls s + j) (enabled_triggers env ! j) True))"

section \<open>Detection toggle handler (event_engine/handlers/inbound.py)\<close>

text \<open>
  The inbound event of a detection toggle and the outbound event of its result, with
  the fields the handler reads and writes; \<open>'m\<close> is the opaque handle of the
  originating message, and the event kind is kept by its value. The camera of the
  event is the one whose alarm service the handler works on. The handler's lookup of
  the trigger's name feeds a log line only, and is left out with it.
\<close>

record ('t, 'm) DetectionConfEvent =
  in_event :: string
  in_type :: 't
  in_state :: bool
  in_message :: 'm

record ('t, 'm) DetectionConfOutboundEvent =
  out_event :: string
  out_type :: 't
  out_state :: bool
  out_cam :: string
  out_message :: 'm
  out_text :: "string option"

text \<open>The camera's alarm service together with the result queue the handler puts
  its outbound events on (the oldest first).\<close>

record ('t, 'm) bot =
  alarm :: "'t AlarmService"
  result_queue :: "('t, 'm) DetectionConfOutboundEvent list"

text \<open>\<open>TaskDetectionConf._handle\<close>.\<close>

definition TaskDetectionConf_handle ::
  "'t alarm_env \<Rightarrow> ('t, 'm) DetectionConfEvent \<Rightarrow> ('t, 'm) bot \<Rightarrow> (error + unit) \<times> ('t, 'm) bot" where
  "TaskDetectionConf_handle env ev b =
     (let trigger = in_type ev;
          state = in_state ev
      in case trigger_switch env trigger state (alarm b) of
           (Inl e, s1) \<Rightarrow> (Inl e, b\<lparr>alarm := s1\<rparr>)
         | (Inr txt, s1) \<Rightarrow>
             (Inr (), b\<lparr>alarm := s1,
                        result_queue := result_queue b @
                          [\<lparr> out_event = in_event ev,
                             out_type = in_type ev,
                             out_state = state,
                             out_cam = cam_id env,
                             out_message = in_message ev,
                             out_text = txt \<rparr>]\<rparr>))"

section \<open>Example inputs\<close>

text \<open>
  A camera with three detection types, two of them enabled in its configuration. Its
  switch call number \<open>i\<close> raises HikvisionAPIError when \<open>fails i\<close>, and returns no text
  otherwise.
\<close>

definition example_cam :: "bool \<Rightarrow> (nat \<Rightarrow> bool) \<Rightarrow> string alarm_env" where
  "example_cam behind_nvr fails =
     \<lparr> cam_id = ''cam_1'',
       is_behind_nvr = behind_nvr,
       ALARM_TRIGGERS = [''motion_detection'', ''line_crossing_detection'', ''intrusion_detection''],
       conf_enabled = (\<lambda>t. t \<noteq> ''intrusion_detection''),
       DETECTION_SWITCH_MAP = (\<lambda>t. if t = ''motion_detection'' then ''Motion Detection''
                                  else if t = ''line_crossing_detection'' then ''Line Crossing Detection''
                                  else ''Intrusion Detection''),
       api_switch = (\<lambda>i t state. if fails i then Inl (HikvisionAPIError ''timeout'') else Inr None) \<rparr>"

text \<open>
  A disk with three recordings, one of them empty, and the DVR files that the
  references 0 to 3 name: 0 is missing on the disk, 1 is marked broken, 2 is empty,
  and every other reference names a healthy recording. Each is locked once. The
  bot's call number \<open>i\<close> raises when \<open>fails i\<close>.
\<close>

definition example_disk :: "string \<Rightarrow> nat option" where
  "example_disk p =
     (if p = ''/dvr/b.mp4'' then Some 1024
      else if p = ''/dvr/c.mp4'' then Some 0
      else if p = ''/dvr/d.mp4'' then Some 2048
      else None)"

definition example_file :: "string \<Rightarrow> bool \<Rightarrow> DvrFile" where
  "example_file fname broken =
     \<lparr> filename = fname,
       lock_count = 1,
       storage_path = ''/dvr'',
       full_path = ''/dvr/'' @ fname,
       thumbnail_path = ''/dvr/'' @ fname @ ''-thumb.jpg'',
       duration = None,
       width = None,
       height = None,
       probe_ctx = None,
       is_broken = broken \<rparr>"

definition example_files :: "nat \<Rightarrow> DvrFile" where
  "example_files r =
     (if r = 0 then example_file ''a.mp4'' False
      else if r = 1 then example_file ''b.mp4'' True
      else if r = 2 then example_file ''c.mp4'' False
      else example_file ''d.mp4'' False)"

definition example_upload_env :: "(nat \<Rightarrow> bool) \<Rightarrow> upload_env" where
  "example_upload_env fails =
     \<lparr> disk = example_disk,
       transport = (\<lambda>i. if fails i then Some (TransportError ''timeout'') else None),
       group_id = 42,
       cam_description = ''Front door'',
       cam_hashtag = ''#cam_1'' \<rparr>"

definition example_worker :: worker where
  "example_worker =
     \<lparr> files = example_files, bot_calls = [], log_lines = [], waited = 0, attempts = 0 \<rparr>"

text \<open>
  Two probe documents with a duration: one whose only stream is an audio stream, and
  one whose video stream gives no height. \<open>example_int_float\<close> is \<open>int(float(x))\<close>
  on the one duration they use.
\<close>

definition example_int_float :: "json \<Rightarrow> int option" where
  "example_int_float j = (if j = JStr ''10.500000'' then Some 10 else None)"

definition example_probe_audio_only :: json where
  "example_probe_audio_only =
     JDict [(''streams'', JList [JDict [(''index'', JInt 0), (''codec_type'', JStr ''audio'')]]),
            (''format'', JDict [(''duration'', JStr ''10.500000'')])]"

definition example_probe_no_height :: json where
  "example_probe_no_height =
     JDict [(''streams'', JList [JDict [(''index'', JInt 0), (''codec_type'', JStr ''video'')]]),
            (''format'', JDict [(''duration'', JStr ''10.500000'')])]"

section \<open>Properties of the DVR file\<close>

lemma lock_count_decrement:
  "lock_count (decrement_lock_count f) = (if lock_count f > 0 then lock_count f - 1 else lock_count f)"
  by (simp add: decrement_lock_count_def)

lemma lock_count_decrements:
  "0 \<le> lock_count f \<Longrightarrow>
   lock_count ((decrement_lock_count ^^ n) f) = max 0 (lock_count f - int n)"
proof (induction n)
  case 0
  then show ?case by simp
next
  case (Suc n)
  then show ?case by (simp add: lock_count_decrement max_def)
qed

lemma decrement_at_zero: "lock_count f = 0 \<Longrightarrow> decrement_lock_count f = f"
  by (simp add: decrement_lock_count_def)

text \<open>
  C9. Constructing a DVR file with a lock count that is zero or negative fails (the
  constructor raises RuntimeError); with a positive lock count it succeeds, and the
  object stores exactly the lock count supplied.
\<close>

theorem DvrFile_init_lock_count:
  "(lock_cnt \<le> 0 \<longrightarrow>
      DvrFile_init fname lock_cnt path = Inl (RuntimeError ''Lock count cannot be lower or equal 0''))
   \<and> (lock_cnt > 0 \<longrightarrow>
      (\<exists>f. DvrFile_init fname lock_cnt path = Inr f \<and> lock_count f = lock_cnt))"
  by (simp add: DvrFile_init_def)

theorem DvrFile_init_lock_count_witness:
  "DvrFile_init ''a.mp4'' 0 ''/dvr'' = Inl (RuntimeError ''Lock count cannot be lower or equal 0'')
   \<and> DvrFile_init ''a.mp4'' (- 3) ''/dvr'' = Inl (RuntimeError ''Lock count cannot be lower or equal 0'')
   \<and> (\<exists>f. DvrFile_init ''a.mp4'' 2 ''/dvr'' = Inr f \<and> lock_count f = 2)"
  using DvrFile_init_lock_count [of 0 "''a.mp4''" "''/dvr''"]
        DvrFile_init_lock_count [of "- 3" "''a.mp4''" "''/dvr''"]
        DvrFile_init_lock_count [of 2 "''a.mp4''" "''/dvr''"]
  by simp

text \<open>
  C4. Take a DVR file constructed with a positive lock count and call
  \<open>decrement_lock_count\<close> on it any number \<open>n\<close> of times. The lock count is then never
  negative (it is the initial count less \<open>n\<close>, stopping at zero), \<open>is_locked\<close> is false
  exactly when the lock count is zero, and one more decrement of a file whose lock
  count is zero changes nothing.
\<close>

theorem lock_count_never_negative:
  assumes "DvrFile_init fname lock_cnt path = Inr f"
  shows "0 \<le> lock_count ((decrement_lock_count ^^ n) f)
       \<and> lock_count ((decrement_lock_count ^^ n) f) = max 0 (lock_cnt - int n)
       \<and> (\<not> is_locked ((decrement_lock_count ^^ n) f)
            \<longleftrightarrow> lock_count ((decrement_lock_count ^^ n) f) = 0)
       \<and> (lock_count ((decrement_lock_count ^^ n) f) = 0 \<longrightarrow>
            decrement_lock_count ((decrement_lock_count ^^ n) f) = (decrement_lock_count ^^ n) f)"
proof -
  from assms have pos: "0 < lock_cnt" and lc: "lock_count f = lock_cnt"
    by (auto simp: DvrFile_init_def split: if_splits)
  have eq: "lock_count ((decrement_lock_count ^^ n) f) = max 0 (lock_cnt - int n)"
    using lock_count_decrements [of f n] pos lc by simp
  show ?thesis
    using eq by (simp add: is_locked_def decrement_at_zero)
qed

theorem lock_count_never_negative_witness:
  "\<exists>f. DvrFile_init ''a.mp4'' 2 ''/dvr'' = Inr f
      \<and> lock_count ((decrement_lock_count ^^ 1) f) = 1
      \<and> is_locked ((decrement_lock_count ^^ 1) f)
      \<and> lock_count ((decrement_lock_count ^^ 3) f) = 0
      \<and> \<not> is_locked ((decrement_lock_count ^^ 3) f)
      \<and> decrement_lock_count ((decrement_lock_count ^^ 3) f) = (decrement_lock_count ^^ 3) f"
proof -
  obtain f where f: "DvrFile_init ''a.mp4'' 2 ''/dvr'' = Inr f"
    by (simp add: DvrFile_init_def)
  show ?thesis
    using f lock_count_never_negative [OF f, of 1] lock_count_never_negative [OF f, of 3]
    by (intro exI [of _ f]) (simp add: is_locked_def)
qed

text \<open>When the probe returns \<open>None\<close> or an empty document, the file is marked
  broken and nothing else of it changes: duration, width and height stay as they
  were.\<close>

lemma probe_empty:
  assumes "probed = None \<or> (\<exists>ctx. probed = Some ctx \<and> \<not> truthy ctx)"
  shows "get_probe_ctx int_float probed f = (Inr (), f\<lparr>probe_ctx := probed, is_broken := True\<rparr>)"
  using assms by (auto simp: get_probe_ctx_def mark_as_broken_def)

text \<open>
  C3 (the code departs from the claim). The probe document of a recording with an
  audio stream and no video stream has no usable video stream. On it \<open>_get_probe_ctx\<close>
  sets the duration, then raises IndexError at \<open>video_streams[0]\<close>, which the handler
  for KeyError does not catch: the exception leaves the method, the file is not marked
  broken, and its duration is set.
\<close>

theorem probe_without_video_stream:
  "get_probe_ctx example_int_float (Some example_probe_audio_only) (example_file ''d.mp4'' False) =
     (Inl IndexError,
      (example_file ''d.mp4'' False)\<lparr>probe_ctx := Some example_probe_audio_only, duration := Some 10\<rparr>)
   \<and> \<not> is_broken (snd (get_probe_ctx example_int_float (Some example_probe_audio_only)
                            (example_file ''d.mp4'' False)))
   \<and> duration (snd (get_probe_ctx example_int_float (Some example_probe_audio_only)
                            (example_file ''d.mp4'' False))) = Some 10"
  by (simp add: get_probe_ctx_def example_probe_audio_only_def example_int_float_def
       first_item_def except_KeyError_def example_file_def)

text \<open>When the first video stream gives no height, the KeyError is caught and the
  file is marked broken, with the duration already set.\<close>

lemma probe_without_height:
  "get_probe_ctx example_int_float (Some example_probe_no_height) (example_file ''d.mp4'' False) =
     (Inr (),
      (example_file ''d.mp4'' False)\<lparr>probe_ctx := Some example_probe_no_height, duration := Some 10,
          is_broken := True\<rparr>)"
  by (simp add: get_probe_ctx_def example_probe_no_height_def example_int_float_def
       first_item_def except_KeyError_def example_file_def mark_as_broken_def)

section \<open>Properties of the alarm service\<close>

lemma trigger_switch_state:
  "trigger_switch env t b s = (r, s') \<Longrightarrow>
     s' = s\<lparr>history := history s @ [Api_switch t b]\<rparr>"
  by (auto simp: trigger_switch_def Let_def split: sum.splits)

lemma trigger_switch_result:
  "fst (trigger_switch env t b s) =
     (case api_switch env (api_calls s) t b of
        Inr info \<Rightarrow> Inr info
      | Inl e \<Rightarrow> Inl (except_HikvisionAPIError env t e))"
  by (simp add: trigger_switch_def Let_def split: sum.splits)

lemma api_calls_append:
  "api_calls (s\<lparr>history := history s @ hs\<rparr>) = api_calls s + length (filter is_Api_switch hs)"
  by (simp add: api_calls_def)

lemma enable_triggers_ok:
  "enable_triggers_on_camera env ts s = (Inr u, s') \<Longrightarrow>
     s' = s\<lparr>history := history s @ map (\<lambda>t. Api_switch t True) (filter (conf_enabled env) ts)\<rparr>"
proof (induction ts arbitrary: s)
  case Nil
  then show ?case by simp
next
  case (Cons t ts)
  show ?case
  proof (cases "conf_enabled env t")
    case False
    with Cons show ?thesis by simp
  next
    case True
    obtain r s1 where ts: "trigger_switch env t True s = (r, s1)"
      by (cases "trigger_switch env t True s")
    with Cons.prems True obtain info where r: "r = Inr info"
      by (cases r) auto
    from Cons.prems True ts r have "enable_triggers_on_camera env ts s1 = (Inr u, s')"
      by simp
    from Cons.IH [OF this] trigger_switch_state [OF ts] True show ?thesis
      by simp
  qed
qed

lemma enable_triggers_raises:
  "enable_triggers_on_camera env ts s = (Inl e, s') \<Longrightarrow>
     (\<exists>dn0 t n e0.
        s' = s\<lparr>history := history s @ map (\<lambda>t. Api_switch t True) (dn0 @ [t])\<rparr>
        \<and> t \<in> set ts \<and> conf_enabled env t
        \<and> api_switch env n t True = Inl e0 \<and> e = except_HikvisionAPIError env t e0)"
proof (induction ts arbitrary: s)
  case Nil
  then show ?case by simp
next
  case (Cons t ts)
  show ?case
  proof (cases "conf_enabled env t")
    case False
    with Cons.prems have "enable_triggers_on_camera env ts s = (Inl e, s')" by simp
    from Cons.IH [OF this] show ?thesis by auto
  next
    case True
    obtain r s1 where ts: "trigger_switch env t True s = (r, s1)"
      by (cases "trigger_switch env t True s")
    note st = trigger_switch_state [OF ts]
    show ?thesis
    proof (cases r)
      case (Inl e1)
      with Cons.prems True ts have e: "e = e1" and s': "s' = s1" by auto
      from trigger_switch_result [of env t True s] ts Inl
      obtain e0 where "api_switch env (api_calls s) t True = Inl e0"
        and "e1 = except_HikvisionAPIError env t e0"
        by (auto split: sum.splits)
      with e s' st True show ?thesis
        by (intro exI [of _ "[]"] exI [of _ t] exI [of _ "api_calls s"] exI [of _ e0]) simp
    next
      case (Inr info)
      with Cons.prems True ts have "enable_triggers_on_camera env ts s1 = (Inl e, s')" by simp
      from Cons.IH [OF this] obtain dn t' n e0 where
        h: "s' = s1\<lparr>history := history s1 @ map (\<lambda>t. Api_switch t True) (dn @ [t'])\<rparr>"
           "t' \<in> set ts" "conf_enabled env t'" "api_switch env n t' True = Inl e0"
           "e = except_HikvisionAPIError env t' e0"
        by blast
      with st show ?thesis
        by (intro exI [of _ "t # dn"] exI [of _ t'] exI [of _ n] exI [of _ e0]) simp
    qed
  qed
qed

lemma api_calls_switch:
  "api_calls (s\<lparr>history := history s @ [Api_switch t b]\<rparr>) = Suc (api_calls s)"
  by (simp add: api_calls_def)

lemma enable_triggers_all_return:
  assumes "\<forall>j<length (filter (conf_enabled env) ts).
             \<not> isl (api_switch env (api_calls s + j) (filter (conf_enabled env) ts ! j) True)"
  shows "enable_triggers_on_camera env ts s =
           (Inr (), s\<lparr>history := history s @
                        map (\<lambda>t. Api_switch t True) (filter (conf_enabled env) ts)\<rparr>)"
  using assms
proof (induction ts arbitrary: s)
  case Nil
  then show ?case by simp
next
  case (Cons t ts)
  show ?case
  proof (cases "conf_enabled env t")
    case False
    with Cons show ?thesis by simp
  next
    case True
    let ?fs = "filter (conf_enabled env) ts"
    define s1 where "s1 = s\<lparr>history := history s @ [Api_switch t True]\<rparr>"
    from Cons.prems True have "\<not> isl (api_switch env (api_calls s) t True)"
      by fastforce
    then obtain info where a: "api_switch env (api_calls s) t True = Inr info"
      by (cases "api_switch env (api_calls s) t True") auto
    then have sw: "trigger_switch env t True s = (Inr info, s1)"
      by (simp add: trigger_switch_def s1_def)
    have calls: "api_calls s1 = Suc (api_calls s)"
      by (simp add: s1_def api_calls_switch)
    have "\<forall>j<length ?fs. \<not> isl (api_switch env (api_calls s1 + j) (?fs ! j) True)"
    proof (intro allI impI)
      fix j assume "j < length ?fs"
      with True have "Suc j < length (filter (conf_enabled env) (t # ts))"
        by simp
      with Cons.prems
      have "\<not> isl (api_switch env (api_calls s + Suc j)
                    (filter (conf_enabled env) (t # ts) ! Suc j) True)"
        by blast
      with True show "\<not> isl (api_switch env (api_calls s1 + j) (?fs ! j) True)"
        by (simp add: calls)
    qed
    from Cons.IH [OF this] True sw show ?thesis
      by (simp add: s1_def)
  qed
qed

lemma enable_triggers_first_failure:
  assumes "i < length (filter (conf_enabled env) ts)"
    and "\<forall>j<i. \<not> isl (api_switch env (api_calls s + j) (filter (conf_enabled env) ts ! j) True)"
    and "api_switch env (api_calls s + i) (filter (conf_enabled env) ts ! i) True = Inl e0"
  shows "enable_triggers_on_camera env ts s =
           (Inl (except_HikvisionAPIError env (filter (conf_enabled env) ts ! i) e0),
            s\<lparr>history := history s @
                 map (\<lambda>t. Api_switch t True) (take (Suc i) (filter (conf_enabled env) ts))\<rparr>)"
  using assms
proof (induction ts arbitrary: s i)
  case Nil
  then show ?case by simp
next
  case (Cons t ts)
  show ?case
  proof (cases "conf_enabled env t")
    case False
    with Cons.prems have
      "i < length (filter (conf_enabled env) ts)"
      "\<forall>j<i. \<not> isl (api_switch env (api_calls s + j) (filter (conf_enabled env) ts ! j) True)"
      "api_switch env (api_calls s + i) (filter (conf_enabled env) ts ! i) True = Inl e0"
      by simp_all
    from Cons.IH [OF this] False show ?thesis by simp
  next
    case True
    let ?fs = "filter (conf_enabled env) ts"
    define s1 where "s1 = s\<lparr>history := history s @ [Api_switch t True]\<rparr>"
    have calls: "api_calls s1 = Suc (api_calls s)"
      by (simp add: s1_def api_calls_switch)
    show ?thesis
    proof (cases i)
      case 0
      with Cons.prems(3) True have "api_switch env (api_calls s) t True = Inl e0"
        by simp
      then have "trigger_switch env t True s = (Inl (except_HikvisionAPIError env t e0), s1)"
        by (simp add: trigger_switch_def s1_def)
      with True 0 show ?thesis
        by (simp add: s1_def)
    next
      case (Suc i')
      from Cons.prems(2) Suc
      have "\<not> isl (api_switch env (api_calls s + 0)
                    (filter (conf_enabled env) (t # ts) ! 0) True)"
        by blast
      with True have "\<not> isl (api_switch env (api_calls s) t True)"
        by simp
      then obtain info where "api_switch env (api_calls s) t True = Inr info"
        by (cases "api_switch env (api_calls s) t True") auto
      then have sw: "trigger_switch env t True s = (Inr info, s1)"
        by (simp add: trigger_switch_def s1_def)
      from Cons.prems(1) True Suc have p1: "i' < length ?fs"
        by simp
      have p2: "\<forall>j<i'. \<not> isl (api_switch env (api_calls s1 + j) (?fs ! j) True)"
      proof (intro allI impI)
        fix j assume "j < i'"
        then have "Suc j < i" using Suc by simp
        with Cons.prems(2)
        have "\<not> isl (api_switch env (api_calls s + Suc j)
                      (filter (conf_enabled env) (t # ts) ! Suc j) True)"
          by blast
        with True show "\<not> isl (api_switch env (api_calls s1 + j) (?fs ! j) True)"
          by (simp add: calls)
      qed
      from Cons.prems(3) True Suc
      have p3: "api_switch env (api_calls s1 + i') (?fs ! i') True = Inl e0"
        by (simp add: calls)
      from Cons.IH [OF p1 p2 p3] True sw Suc show ?thesis
        by (simp add: s1_def)
    qed
  qed
qed


lemma start_returns_iff:
  assumes nvr: "\<not> is_behind_nvr env" and ns: "\<not> started s"
  shows "(\<exists>s'. start env s = (Inr (), s') \<and> started s')
         \<longleftrightarrow> (\<forall>j<length (enabled_triggers env). switch_returns env s j)"
proof
  assume r: "\<forall>j<length (enabled_triggers env). switch_returns env s j"
  then have "\<forall>j<length (filter (conf_enabled env) (ALARM_TRIGGERS env)).
      \<not> isl (api_switch env (api_calls s + j)
               (filter (conf_enabled env) (ALARM_TRIGGERS env) ! j) True)"
    by (simp add: switch_returns_def enabled_triggers_def)
  from enable_triggers_all_return [OF this] nvr ns
  show "\<exists>s'. start env s = (Inr (), s') \<and> started s'"
    by (simp add: start_def start_service_task_def)
next
  assume ok: "\<exists>s'. start env s = (Inr (), s') \<and> started s'"
  show "\<forall>j<length (enabled_triggers env). switch_returns env s j"
  proof (rule ccontr)
    assume "\<not> (\<forall>j<length (enabled_triggers env). switch_returns env s j)"
    then have "\<exists>i. i < length (enabled_triggers env) \<and> \<not> switch_returns env s i"
      by blast
    then obtain i where i: "i < length (enabled_triggers env)" "\<not> switch_returns env s i"
      and least: "\<forall>j<i. \<not> (j < length (enabled_triggers env) \<and> \<not> switch_returns env s j)"
      using exists_least_iff [of "\<lambda>i. i < length (enabled_triggers env) \<and> \<not> switch_returns env s i"]
      by blast
    from i(2) obtain e0 where
      f: "api_switch env (api_calls s + i) (enabled_triggers env ! i) True = Inl e0"
      by (cases "api_switch env (api_calls s + i) (enabled_triggers env ! i) True")
         (auto simp: switch_returns_def)
    from least i(1) have b: "\<forall>j<i. switch_returns env s j"
      by auto
    from enable_triggers_first_failure [of i env "ALARM_TRIGGERS env" s e0] i(1) b f
    obtain s1 where "enable_triggers_on_camera env (ALARM_TRIGGERS env) s
            = (Inl (except_HikvisionAPIError env (enabled_triggers env ! i) e0), s1)"
      by (simp add: switch_returns_def enabled_triggers_def)
    with nvr ns have "start env s = (Inl (except_HikvisionAPIError env (enabled_triggers env ! i) e0), s1)"
      by (simp add: start_def)
    with ok show False
      by auto
  qed
qed

text \<open>
  C5 (amended). On a camera that is not behind a relay (NVR): \<open>start\<close> on a started
  service raises ServiceRuntimeError and changes nothing; \<open>stop\<close> on a service that is
  not started raises ServiceRuntimeError and changes nothing; \<open>stop\<close> on a started
  service returns and leaves the service not started; and \<open>start\<close> on a service that
  is not started returns and leaves it started exactly when every switch call it makes
  to enable a configured trigger returns.
\<close>

theorem start_stop_guard:
  assumes "\<not> is_behind_nvr env"
  shows "(started s \<longrightarrow>
            start env s = (Inl (ServiceRuntimeError ''Alarm (alert) mode already started''), s))
       \<and> (\<not> started s \<longrightarrow>
            stop s = (Inl (ServiceRuntimeError ''Alarm alert mode already stopped''), s))
       \<and> (started s \<longrightarrow> (\<exists>s'. stop s = (Inr (), s') \<and> \<not> started s'))
       \<and> (\<not> started s \<longrightarrow>
            ((\<exists>s'. start env s = (Inr (), s') \<and> started s')
             \<longleftrightarrow> (\<forall>j<length (enabled_triggers env). switch_returns env s j)))"
proof (intro conjI impI)
  assume "started s"
  with assms show "start env s = (Inl (ServiceRuntimeError ''Alarm (alert) mode already started''), s)"
    by (simp add: start_def)
next
  assume "\<not> started s"
  then show "stop s = (Inl (ServiceRuntimeError ''Alarm alert mode already stopped''), s)"
    by (simp add: stop_def)
next
  assume "started s"
  then show "\<exists>s'. stop s = (Inr (), s') \<and> \<not> started s'"
    by (simp add: stop_def)
next
  assume "\<not> started s"
  with assms show "(\<exists>s'. start env s = (Inr (), s') \<and> started s')
             \<longleftrightarrow> (\<forall>j<length (enabled_triggers env). switch_returns env s j)"
    by (rule start_returns_iff)
qed

theorem start_stop_guard_witness:
  "(\<exists>s'. start (example_cam False (\<lambda>i. i = 5)) AlarmService_init = (Inr (), s') \<and> started s')
   \<and> stop (AlarmService_init :: string AlarmService) =
        (Inl (ServiceRuntimeError ''Alarm alert mode already stopped''), AlarmService_init)
   \<and> start (example_cam False (\<lambda>i. i = 5)) (AlarmService_init\<lparr>started := True\<rparr>) =
        (Inl (ServiceRuntimeError ''Alarm (alert) mode already started''),
         AlarmService_init\<lparr>started := True\<rparr>)
   \<and> (\<exists>s'. stop ((AlarmService_init :: string AlarmService)\<lparr>started := True\<rparr>) = (Inr (), s')
          \<and> \<not> started s')"
proof -
  let ?env = "example_cam False (\<lambda>i. i = 5)"
  let ?s0 = "AlarmService_init :: string AlarmService"
  let ?s1 = "?s0\<lparr>started := True\<rparr>"
  have nvr: "\<not> is_behind_nvr ?env"
    by (simp add: example_cam_def)
  have stopped: "\<not> started ?s0"
    by (simp add: AlarmService_init_def)
  have len: "length (enabled_triggers ?env) = 2"
    by (simp add: enabled_triggers_def example_cam_def)
  have returns: "\<forall>j<length (enabled_triggers ?env). switch_returns ?env ?s0 j"
    unfolding len
    by (simp add: switch_returns_def example_cam_def AlarmService_init_def api_calls_def)
  have running: "started ?s1"
    by simp
  note g0 = start_stop_guard [OF nvr, of ?s0]
  note g1 = start_stop_guard [OF nvr, of ?s1]
  from g0 stopped returns
  have c1: "\<exists>s'. start ?env ?s0 = (Inr (), s') \<and> started s'"
    by blast
  from g0 stopped
  have c2: "stop ?s0 = (Inl (ServiceRuntimeError ''Alarm alert mode already stopped''), ?s0)"
    by blast
  from g1 running
  have c3: "start ?env ?s1 = (Inl (ServiceRuntimeError ''Alarm (alert) mode already started''), ?s1)"
    by blast
  from g1 running
  have c4: "\<exists>s'. stop ?s1 = (Inr (), s') \<and> \<not> started s'"
    by blast
  from c1 c2 c3 c4 show ?thesis
    by blast
qed

text \<open>
  C5 as it was stated, with every valid transition succeeding, fails for \<open>start\<close>: on
  a camera that is not behind a relay and whose second switch call raises, \<open>start\<close> on
  a service that is not started raises ServiceRuntimeError, and the service is still
  not started.
\<close>

theorem valid_start_raises:
  "\<not> is_behind_nvr (example_cam False (\<lambda>i. i = 1))
   \<and> \<not> started (AlarmService_init :: string AlarmService)
   \<and> start (example_cam False (\<lambda>i. i = 1)) AlarmService_init =
       (Inl (ServiceRuntimeError ''Line Crossing Detection Switch encountered an error: timeout''),
        \<lparr> started = False, alert_count = 0,
          history = [Api_switch ''motion_detection'' True,
                     Api_switch ''line_crossing_detection'' True] \<rparr>)
   \<and> \<not> (\<exists>s'. start (example_cam False (\<lambda>i. i = 1)) AlarmService_init = (Inr (), s')
              \<and> started s')"
  by (simp add: start_def example_cam_def AlarmService_init_def trigger_switch_def
       api_calls_def except_HikvisionAPIError_def)

text \<open>
  C6. On a camera behind a relay (NVR), \<open>start\<close> returns without an exception and
  leaves the service as it was: no switch call is made, no task is created, and the
  started flag keeps its value, whatever it was.
\<close>

theorem start_behind_nvr_noop:
  assumes "is_behind_nvr env"
  shows "start env s = (Inr (), s)"
  using assms by (simp add: start_def)

theorem start_behind_nvr_noop_witness:
  "start (example_cam True (\<lambda>i. False)) AlarmService_init = (Inr (), AlarmService_init)
   \<and> history AlarmService_init = ([] :: string action list)
   \<and> \<not> started (AlarmService_init :: string AlarmService)"
proof -
  have nvr: "is_behind_nvr (example_cam True (\<lambda>i. False))"
    by (simp add: example_cam_def)
  show ?thesis
    using start_behind_nvr_noop [OF nvr, of AlarmService_init]
    by (simp add: AlarmService_init_def)
qed

text \<open>
  C7. On a camera that is not behind a relay, whose configuration enables exactly \<open>k\<close>
  of the detection types (\<open>ALARM_TRIGGERS\<close> lists each detection type once), a
  \<open>start\<close> that returns has made exactly \<open>k\<close> switch calls,
  one for each enabled trigger, in the order of \<open>ALARM_TRIGGERS\<close>, each asking for
  state \<open>True\<close>. They are all made while the service is not yet started; only then is
  the started flag set, and only after that is the monitoring task created.
\<close>

theorem start_switches_before_started:
  assumes nvr: "\<not> is_behind_nvr env"
    and dist: "distinct (ALARM_TRIGGERS env)"
    and k: "card {t \<in> set (ALARM_TRIGGERS env). conf_enabled env t} = k"
    and ok: "start env s = (Inr (), s')"
  shows "\<exists>calls s1.
           calls = map (\<lambda>t. Api_switch t True) (filter (conf_enabled env) (ALARM_TRIGGERS env))
         \<and> length calls = k
         \<and> enable_triggers_on_camera env (ALARM_TRIGGERS env) s = (Inr (), s1)
         \<and> history s1 = history s @ calls
         \<and> \<not> started s \<and> \<not> started s1
         \<and> history s' = history s1 @ [Started_set, Create_task (''ServiceAlarmMonitoringTask_'' @ cam_id env)]
         \<and> started s'
         \<and> api_calls s' = api_calls s + k"
proof -
  define calls where
    "calls = map (\<lambda>t. Api_switch t True) (filter (conf_enabled env) (ALARM_TRIGGERS env))"
  from ok nvr have ns: "\<not> started s"
    by (auto simp: start_def split: if_splits)
  obtain r s1 where en: "enable_triggers_on_camera env (ALARM_TRIGGERS env) s = (r, s1)"
    by (cases "enable_triggers_on_camera env (ALARM_TRIGGERS env) s")
  with ok nvr ns have r: "r = Inr ()"
    by (cases r) (auto simp: start_def)
  from ok nvr ns en r have s': "s' = start_service_task env (s1\<lparr>started := True, history := history s1 @ [Started_set]\<rparr>)"
    by (simp add: start_def)
  from enable_triggers_ok [of env "ALARM_TRIGGERS env" s "()" s1] en r
  have s1: "s1 = s\<lparr>history := history s @ calls\<rparr>"
    by (simp add: calls_def)
  have "{t \<in> set (ALARM_TRIGGERS env). conf_enabled env t} = {t. conf_enabled env t} \<inter> set (ALARM_TRIGGERS env)"
    by auto
  with k dist have len: "length calls = k"
    by (simp add: calls_def distinct_length_filter)
  have sw: "filter is_Api_switch calls = calls"
    by (simp add: calls_def filter_map comp_def)
  have "api_calls s' = api_calls s + k"
    using len sw by (simp add: s' s1 start_service_task_def api_calls_def)
  with len en r s1 s' ns show ?thesis
    by (intro exI [of _ calls] exI [of _ s1]) (simp add: calls_def start_service_task_def)
qed

theorem start_switches_before_started_witness:
  "start (example_cam False (\<lambda>i. False)) AlarmService_init =
     (Inr (), \<lparr> started = True, alert_count = 0,
                history = [Api_switch ''motion_detection'' True,
                           Api_switch ''line_crossing_detection'' True,
                           Started_set,
                           Create_task ''ServiceAlarmMonitoringTask_cam_1''] \<rparr>)
   \<and> card {t \<in> set (ALARM_TRIGGERS (example_cam False (\<lambda>i. False))).
             conf_enabled (example_cam False (\<lambda>i. False)) t} = 2
   \<and> api_calls \<lparr> started = True, alert_count = 0,
                history = [Api_switch ''motion_detection'' True,
                           Api_switch ''line_crossing_detection'' True,
                           Started_set,
                           Create_task ''ServiceAlarmMonitoringTask_cam_1''] \<rparr> = 2"
proof -
  let ?env = "example_cam False (\<lambda>i. False)"
  let ?s' = "\<lparr> started = True, alert_count = 0,
                history = [Api_switch ''motion_detection'' True,
                           Api_switch ''line_crossing_detection'' True,
                           Started_set,
                           Create_task ''ServiceAlarmMonitoringTask_cam_1''] \<rparr>"
  have nvr: "\<not> is_behind_nvr ?env"
    by (simp add: example_cam_def)
  have dist: "distinct (ALARM_TRIGGERS ?env)"
    by (simp add: example_cam_def)
  have "{t \<in> set (ALARM_TRIGGERS ?env). conf_enabled ?env t}
          = {''motion_detection'', ''line_crossing_detection''}"
    by (auto simp: example_cam_def)
  then have k: "card {t \<in> set (ALARM_TRIGGERS ?env). conf_enabled ?env t} = 2"
    by simp
  have ok: "start ?env AlarmService_init = (Inr (), ?s')"
    by (simp add: start_def example_cam_def AlarmService_init_def trigger_switch_def
         start_service_task_def api_calls_def)
  show ?thesis
    using start_switches_before_started [OF nvr dist k ok] ok k
    by (simp add: AlarmService_init_def api_calls_def)
qed


text \<open>
  C10. On a camera that is not behind a relay, take a \<open>start\<close> on a service that is
  not started, and let one of the switch calls it makes raise, the calls before it
  having returned. Then \<open>start\<close> raises what \<open>trigger_switch\<close> raised for that call
  (the camera's error as a ServiceRuntimeError that names the switch; any other
  exception as it is). The service is still not started and its alert count is
  unchanged; all that \<open>start\<close> has done is the switch calls up to the one that
  raised: the started flag was not set and no monitoring task was created. The
  service being not started, \<open>stop\<close> would raise, and a later \<open>start\<close> with no \<open>stop\<close>
  in between passes the guard: it returns and leaves the service started exactly when
  the switch calls it then makes return. The switch calls made before the one that
  raised are not undone.
\<close>

theorem start_raises_when_switch_fails:
  assumes nvr: "\<not> is_behind_nvr env" and ns: "\<not> started s"
    and i: "i < length (enabled_triggers env)"
    and before: "\<forall>j<i. switch_returns env s j"
    and fails: "api_switch env (api_calls s + i) (enabled_triggers env ! i) True = Inl e0"
  shows "\<exists>s'. start env s = (Inl (except_HikvisionAPIError env (enabled_triggers env ! i) e0), s')
       \<and> \<not> started s'
       \<and> alert_count s' = alert_count s
       \<and> history s' = history s @ map (\<lambda>t. Api_switch t True) (take (Suc i) (enabled_triggers env))
       \<and> stop s' = (Inl (ServiceRuntimeError ''Alarm alert mode already stopped''), s')
       \<and> ((\<exists>s''. start env s' = (Inr (), s'') \<and> started s'')
            \<longleftrightarrow> (\<forall>j<length (enabled_triggers env). switch_returns env s' j))"
proof -
  define s' where
    "s' = s\<lparr>history := history s @
             map (\<lambda>t. Api_switch t True) (take (Suc i) (enabled_triggers env))\<rparr>"
  from enable_triggers_first_failure [of i env "ALARM_TRIGGERS env" s e0] i before fails
  have "enable_triggers_on_camera env (ALARM_TRIGGERS env) s =
          (Inl (except_HikvisionAPIError env (enabled_triggers env ! i) e0), s')"
    by (simp add: switch_returns_def enabled_triggers_def s'_def)
  with nvr ns
  have c1: "start env s = (Inl (except_HikvisionAPIError env (enabled_triggers env ! i) e0), s')"
    by (simp add: start_def)
  have c2: "\<not> started s'"
    using ns by (simp add: s'_def)
  have c3: "alert_count s' = alert_count s"
    by (simp add: s'_def)
  have c4: "history s' = history s @ map (\<lambda>t. Api_switch t True) (take (Suc i) (enabled_triggers env))"
    by (simp add: s'_def)
  have c5: "stop s' = (Inl (ServiceRuntimeError ''Alarm alert mode already stopped''), s')"
    using c2 by (simp add: stop_def)
  note c6 = start_returns_iff [OF nvr c2]
  from c1 c2 c3 c4 c5 c6 show ?thesis
    by blast
qed

theorem start_raises_when_switch_fails_witness:
  "\<exists>s'. start (example_cam False (\<lambda>i. i = 1)) AlarmService_init =
           (Inl (ServiceRuntimeError ''Line Crossing Detection Switch encountered an error: timeout''), s')
       \<and> \<not> started s'
       \<and> history s' = [Api_switch ''motion_detection'' True,
                        Api_switch ''line_crossing_detection'' True]
       \<and> (\<exists>s''. start (example_cam False (\<lambda>i. i = 1)) s' = (Inr (), s'') \<and> started s'')"
proof -
  let ?env = "example_cam False (\<lambda>i. i = 1)"
  let ?s0 = "AlarmService_init :: string AlarmService"
  have nvr: "\<not> is_behind_nvr ?env"
    by (simp add: example_cam_def)
  have ns: "\<not> started ?s0"
    by (simp add: AlarmService_init_def)
  have ens: "enabled_triggers ?env = [''motion_detection'', ''line_crossing_detection'']"
    by (simp add: enabled_triggers_def example_cam_def)
  have i: "1 < length (enabled_triggers ?env)"
    unfolding ens by simp
  have before: "\<forall>j<1. switch_returns ?env ?s0 j"
    by (simp add: switch_returns_def example_cam_def AlarmService_init_def api_calls_def)
  have fails: "api_switch ?env (api_calls ?s0 + 1) (enabled_triggers ?env ! 1) True
                 = Inl (HikvisionAPIError ''timeout'')"
    unfolding ens by (simp add: example_cam_def AlarmService_init_def api_calls_def)
  from start_raises_when_switch_fails [OF nvr ns i before fails]
  obtain s' where
    r: "start ?env ?s0 =
          (Inl (except_HikvisionAPIError ?env (enabled_triggers ?env ! 1) (HikvisionAPIError ''timeout'')), s')"
    and st: "\<not> started s'"
    and h: "history s' = history ?s0 @ map (\<lambda>t. Api_switch t True) (take (Suc 1) (enabled_triggers ?env))"
    and later: "(\<exists>s''. start ?env s' = (Inr (), s'') \<and> started s'')
            \<longleftrightarrow> (\<forall>j<length (enabled_triggers ?env). switch_returns ?env s' j)"
    by blast
  have e: "except_HikvisionAPIError ?env (enabled_triggers ?env ! 1) (HikvisionAPIError ''timeout'')
             = ServiceRuntimeError ''Line Crossing Detection Switch encountered an error: timeout''"
    unfolding ens by (simp add: except_HikvisionAPIError_def example_cam_def)
  have h': "history s' = [Api_switch ''motion_detection'' True,
                          Api_switch ''line_crossing_detection'' True]"
    using h unfolding ens by (simp add: AlarmService_init_def)
  have calls: "api_calls s' = 2"
    by (simp add: api_calls_def h')
  have "\<forall>j<length (enabled_triggers ?env). switch_returns ?env s' j"
    unfolding ens by (simp add: switch_returns_def calls example_cam_def)
  with later have "\<exists>s''. start ?env s' = (Inr (), s'') \<and> started s''"
    by blast
  with r e st h' show ?thesis
    by (intro exI [of _ s']) simp
qed

text \<open>Conversely, a \<open>start\<close> that passes the guard raises only what a switch call for
  an enabled trigger raised, and has then done nothing but switch calls.\<close>

lemma start_raises_only_by_switch:
  assumes nvr: "\<not> is_behind_nvr env"
    and ns: "\<not> started s"
    and raised: "start env s = (Inl e, s')"
  shows "(\<exists>t n e0. t \<in> set (ALARM_TRIGGERS env) \<and> conf_enabled env t
            \<and> api_switch env n t True = Inl e0 \<and> e = except_HikvisionAPIError env t e0)
       \<and> \<not> started s'
       \<and> alert_count s' = alert_count s
       \<and> (\<exists>calls. history s' = history s @ calls \<and> list_all is_Api_switch calls)"
proof -
  obtain r s1 where en: "enable_triggers_on_camera env (ALARM_TRIGGERS env) s = (r, s1)"
    by (cases "enable_triggers_on_camera env (ALARM_TRIGGERS env) s")
  with raised nvr ns have r: "r = Inl e" and s1: "s1 = s'"
    by (cases r; simp add: start_def)+
  from enable_triggers_raises [of env "ALARM_TRIGGERS env" s e s'] en r s1
  obtain dn t n e0 where
    s': "s' = s\<lparr>history := history s @ map (\<lambda>t. Api_switch t True) (dn @ [t])\<rparr>"
    and t: "t \<in> set (ALARM_TRIGGERS env)" "conf_enabled env t"
    and e0: "api_switch env n t True = Inl e0" "e = except_HikvisionAPIError env t e0"
    by auto
  have c1: "\<exists>t n e0. t \<in> set (ALARM_TRIGGERS env) \<and> conf_enabled env t
            \<and> api_switch env n t True = Inl e0 \<and> e = except_HikvisionAPIError env t e0"
    using t e0 by blast
  have c2: "\<not> started s'"
    using ns by (simp add: s')
  have c3: "alert_count s' = alert_count s"
    by (simp add: s')
  have "list_all is_Api_switch (map (\<lambda>t. Api_switch t True) (dn @ [t]))"
    by (simp add: list_all_iff)
  then have c4: "\<exists>calls. history s' = history s @ calls \<and> list_all is_Api_switch calls"
    using s' by (intro exI [of _ "map (\<lambda>t. Api_switch t True) (dn @ [t])"]) simp
  from c1 c2 c3 c4 show ?thesis
    by blast
qed

section \<open>Properties of the detection toggle handler\<close>

text \<open>When the switch call returns, the handler puts exactly one outbound event on
  the result queue, with the requested state and the text the call returned; when it
  raises, the handler raises what \<open>trigger_switch\<close> raised and puts nothing on the
  queue.\<close>

lemma handle_returns:
  assumes "api_switch env (api_calls (alarm b)) (in_type ev) (in_state ev) = Inr info"
  shows "\<exists>b'. TaskDetectionConf_handle env ev b = (Inr (), b')
          \<and> result_queue b' = result_queue b @
               [\<lparr> out_event = in_event ev, out_type = in_type ev, out_state = in_state ev,
                  out_cam = cam_id env, out_message = in_message ev, out_text = info \<rparr>]"
  using assms by (simp add: TaskDetectionConf_handle_def trigger_switch_def Let_def)

lemma handle_raises:
  assumes "api_switch env (api_calls (alarm b)) (in_type ev) (in_state ev) = Inl e"
  shows "\<exists>b'. TaskDetectionConf_handle env ev b =
                 (Inl (except_HikvisionAPIError env (in_type ev) e), b')
          \<and> result_queue b' = result_queue b"
  using assms by (simp add: TaskDetectionConf_handle_def trigger_switch_def Let_def)

text \<open>
  C1 (the code departs from the claim). A detection toggle for line crossing, state
  \<open>True\<close>, on a camera whose switch call raises HikvisionAPIError: \<open>trigger_switch\<close>
  raises ServiceRuntimeError, \<open>_handle\<close> has no handler for it, so the exception leaves
  \<open>_handle\<close> and the result queue stays empty.
\<close>

theorem detection_toggle_switch_fails:
  "TaskDetectionConf_handle (example_cam False (\<lambda>i. True))
     \<lparr> in_event = ''detection_conf'', in_type = ''line_crossing_detection'',
       in_state = True, in_message = (7 :: nat) \<rparr>
     \<lparr> alarm = AlarmService_init, result_queue = [] \<rparr>
   = (Inl (ServiceRuntimeError ''Line Crossing Detection Switch encountered an error: timeout''),
      \<lparr> alarm = AlarmService_init\<lparr>history := [Api_switch ''line_crossing_detection'' True]\<rparr>,
        result_queue = [] \<rparr>)"
  by (simp add: TaskDetectionConf_handle_def trigger_switch_def example_cam_def
       AlarmService_init_def api_calls_def except_HikvisionAPIError_def)

section \<open>Properties of the upload task\<close>





lemma stop_after: "UPLOAD_RETRY_STOP_AFTER = Suc 4"
  by (simp add: UPLOAD_RETRY_STOP_AFTER_def)





text \<open>When every call on the bot raises and the file passes the validations, each
  attempt raises after its \<open>send_chat_action\<close>, and the decorator gives up with
  RetryError after the last attempt allowed.\<close>

lemma attempt_raises:
  assumes "exists (disk env) (files w r)" and "\<not> is_broken (files w r)"
    and "is_empty_file (disk env) (files w r) = Inr False"
    and "transport env (length (bot_calls w)) = Some e"
  shows "upload_video_attempt env r w =
           (Inl e, w\<lparr>attempts := attempts w + 1,
                     bot_calls := bot_calls w @ [Send_chat_action (group_id env)],
                     log_lines := log_lines w @
                       [Log_debug (''Uploading DVR video '' @ full_path (files w r)),
                        Log_exception (''Failed to upload video '' @ full_path (files w r) @ ''. Retrying'')]\<rparr>)"
  using assms
  by (simp add: upload_video_attempt_def upload_def validate_file_def call_bot_def add_log_def)

lemma retry_exhausted:
  assumes "exists (disk env) (files w r)" and "\<not> is_broken (files w r)"
    and "is_empty_file (disk env) (files w r) = Inr False"
    and "\<forall>i. \<exists>e. transport env i = Some e"
  shows "\<exists>w1. retry env (Suc n) r w = (Inl RetryError, w1)
          \<and> files w1 = files w
          \<and> bot_calls w1 = bot_calls w @ replicate (Suc n) (Send_chat_action (group_id env))
          \<and> attempts w1 = attempts w + Suc n
          \<and> waited w1 = waited w + n * UPLOAD_RETRY_WAIT"
  using assms
proof (induction n arbitrary: w)
  case 0
  from 0(4) obtain e where "transport env (length (bot_calls w)) = Some e"
    by blast
  from attempt_raises [OF 0(1,2,3) this] show ?case
    by simp
next
  case (Suc n)
  from Suc(5) obtain e where te: "transport env (length (bot_calls w)) = Some e"
    by blast
  define l1 where "l1 = Log_debug (''Uploading DVR video '' @ full_path (files w r))"
  define l2 where
    "l2 = Log_exception (''Failed to upload video '' @ full_path (files w r) @ ''. Retrying'')"
  from attempt_raises [OF Suc(2,3,4) te] have
    a: "upload_video_attempt env r w =
           (Inl e, w\<lparr>attempts := attempts w + 1,
                     bot_calls := bot_calls w @ [Send_chat_action (group_id env)],
                     log_lines := log_lines w @ [l1, l2]\<rparr>)"
    by (simp add: l1_def l2_def)
  let ?w = "w\<lparr>attempts := attempts w + 1,
               bot_calls := bot_calls w @ [Send_chat_action (group_id env)],
               log_lines := log_lines w @ [l1, l2],
               waited := waited w + UPLOAD_RETRY_WAIT\<rparr>"
  have "\<exists>w1. retry env (Suc n) r ?w = (Inl RetryError, w1)
          \<and> files w1 = files ?w
          \<and> bot_calls w1 = bot_calls ?w @ replicate (Suc n) (Send_chat_action (group_id env))
          \<and> attempts w1 = attempts ?w + Suc n
          \<and> waited w1 = waited ?w + n * UPLOAD_RETRY_WAIT"
    using Suc(2,3,4,5) by (intro Suc.IH) simp_all
  then obtain w1 where w1: "retry env (Suc n) r ?w = (Inl RetryError, w1)"
          "files w1 = files ?w"
          "bot_calls w1 = bot_calls ?w @ replicate (Suc n) (Send_chat_action (group_id env))"
          "attempts w1 = attempts ?w + Suc n"
          "waited w1 = waited ?w + n * UPLOAD_RETRY_WAIT"
    by blast
  have "retry env (Suc (Suc n)) r w = retry env (Suc n) r ?w"
    using a by (simp del: retry.simps(2) add: retry.simps(2) [of env "Suc n"])
  with w1 show ?case
    by (intro exI [of _ w1]) (simp del: retry.simps add: replicate_app_Cons_same)
qed

lemma always_failing_transport:
  assumes "exists (disk env) (files w r)" and "\<not> is_broken (files w r)"
    and "is_empty_file (disk env) (files w r) = Inr False"
    and "\<forall>i. \<exists>e. transport env i = Some e"
  shows "\<exists>w1. process_queue env (r # queue) w = (Raised RetryError, queue, w1)
          \<and> files w1 = files w
          \<and> length (bot_calls w1) = length (bot_calls w) + 5
          \<and> attempts w1 = attempts w + 5"
proof -
  from retry_exhausted [OF assms, of 4] obtain w1 where
    "retry env (Suc 4) r w = (Inl RetryError, w1)" "files w1 = files w"
    "bot_calls w1 = bot_calls w @ replicate (Suc 4) (Send_chat_action (group_id env))"
    "attempts w1 = attempts w + Suc 4"
    by blast
  then show ?thesis
    by (intro exI [of _ w1]) (simp add: upload_video_def stop_after del: retry.simps)
qed

lemma upload_returns_then_decrement:
  assumes "upload_video env r w = (Inr u, w1)"
  shows "process_queue env (r # queue) w = process_queue env queue (file_decrement_lock_count r w1)"
  using assms by simp

text \<open>
  C2 (the code departs from the claim). The queue holds two healthy recordings and
  every call on the bot raises. The worker makes five attempts for the first file,
  five calls on the bot in all, waiting four times five seconds; then RetryError leaves
  \<open>_upload_video\<close> and, nothing catching it, \<open>_process_queue\<close>: the first file's lock
  count is not decremented (the file stays locked) and the second file is never taken
  from the queue.
\<close>

theorem failing_transport_stops_worker:
  "\<exists>w'. process_queue (example_upload_env (\<lambda>i. True)) [3, 4] example_worker
           = (Raised RetryError, [4], w')
       \<and> bot_calls w' = replicate 5 (Send_chat_action 42)
       \<and> attempts w' = 5
       \<and> waited w' = 20
       \<and> lock_count (files w' 3) = 1
       \<and> is_locked (files w' 3)
       \<and> files w' = files example_worker"
  by (simp add: upload_video_def UPLOAD_RETRY_STOP_AFTER_def UPLOAD_RETRY_WAIT_def eval_nat_numeral
       upload_video_attempt_def upload_def validate_file_def exists_def is_empty_file_def
       call_bot_def add_log_def example_upload_env_def example_worker_def example_files_def
       example_file_def example_disk_def is_locked_def)



end
